theory Spec2Isabelle
  imports Main "HOL-Library.AList"
begin

section \<open>The manifest document\<close>

text \<open>
  The value that \<^verbatim>\<open>json.load\<close> returns.  A Python \<^verbatim>\<open>dict\<close> keeps its keys in insertion
  order, so an object is an association list; \<^verbatim>\<open>json.load\<close> never yields a key twice
  (\<open>wf_json\<close>).  A float is its mantissa and binary exponent.
\<close>

datatype json =
    JNull
  | JBool bool
  | JInt int
  | JFloat int int
  | JStr string
  | JArr "json list"
  | JObj "(string \<times> json) list"

fun wf_json :: "json \<Rightarrow> bool"
  and wf_items :: "(string \<times> json) list \<Rightarrow> bool"
  and wf_elems :: "json list \<Rightarrow> bool" where
  "wf_json (JObj kvs) = (distinct (map fst kvs) \<and> wf_items kvs)"
| "wf_json (JArr xs) = wf_elems xs"
| "wf_json _ = True"
| "wf_items [] = True"
| "wf_items ((k, v) # kvs) = (wf_json v \<and> wf_items kvs)"
| "wf_elems [] = True"
| "wf_elems (x # xs) = (wf_json x \<and> wf_elems xs)"

text \<open>
  A reference to a node of the loaded document is the position of the node: the list of
  child indices from the root (the \<open>i\<close>-th value of an object, the \<open>i\<close>-th element of an
  array).  The loaded tree shares no node, so a position names one object.
\<close>

type_synonym ref = "nat list"

subsection \<open>Formatting of paths\<close>

definition digit_char :: "nat \<Rightarrow> char" where
  "digit_char d = char_of (48 + d)"

fun str_nat :: "nat \<Rightarrow> string" where
  "str_nat n = (if n < 10 then [digit_char n] else str_nat (n div 10) @ [digit_char (n mod 10)])"

declare str_nat.simps [simp del]

text \<open>\<^verbatim>\<open>f"{path}.{key}" if path else key\<close> and \<^verbatim>\<open>f"{path}[{i}]"\<close>.\<close>

definition key_path :: "string \<Rightarrow> string \<Rightarrow> string" where
  "key_path path key = (if path \<noteq> [] then path @ ''.'' @ key else key)"

definition index_path :: "string \<Rightarrow> nat \<Rightarrow> string" where
  "index_path path i = path @ ''['' @ str_nat i @ '']''"

subsection \<open>\<^verbatim>\<open>find_entry_by_rev\<close>\<close>

text \<open>
  \<^verbatim>\<open>'rev' in obj and 'hash' in obj\<close>, then \<^verbatim>\<open>obj['rev'] == target_rev and
  obj['hash'] == placeholder_hash\<close>: both arguments are Python strings, which equal a JSON
  value only when that value is the same string.
\<close>

definition matches_entry :: "string \<Rightarrow> string \<Rightarrow> (string \<times> json) list \<Rightarrow> bool" where
  "matches_entry target_rev placeholder_hash obj =
     (case map_of obj ''rev'' of
        None \<Rightarrow> False
      | Some r \<Rightarrow>
          (case map_of obj ''hash'' of
             None \<Rightarrow> False
           | Some h \<Rightarrow> r = JStr target_rev \<and> h = JStr placeholder_hash))"

text \<open>
  \<^verbatim>\<open>search_recursive(obj, path)\<close>; the result \<^verbatim>\<open>(None, None)\<close> is \<open>None\<close>, and a found
  entry is its path, its reference and its value.  \<open>search_items\<close> is the loop over
  \<^verbatim>\<open>obj.items()\<close> and \<open>search_elems\<close> the loop over \<^verbatim>\<open>enumerate(obj)\<close>, each from
  index \<open>i\<close> on.
\<close>

fun search_recursive :: "string \<Rightarrow> string \<Rightarrow> json \<Rightarrow> string \<Rightarrow> ref \<Rightarrow> (string \<times> ref \<times> json) option"
  and search_items :: "string \<Rightarrow> string \<Rightarrow> (string \<times> json) list \<Rightarrow> nat \<Rightarrow> string \<Rightarrow> ref \<Rightarrow> (string \<times> ref \<times> json) option"
  and search_elems :: "string \<Rightarrow> string \<Rightarrow> json list \<Rightarrow> nat \<Rightarrow> string \<Rightarrow> ref \<Rightarrow> (string \<times> ref \<times> json) option" where
  "search_recursive t p (JObj obj) path r =
     (if matches_entry t p obj then Some (path, r, JObj obj)
      else search_items t p obj 0 path r)"
| "search_recursive t p (JArr xs) path r = search_elems t p xs 0 path r"
| "search_recursive t p JNull path r = None"
| "search_recursive t p (JBool b) path r = None"
| "search_recursive t p (JInt n) path r = None"
| "search_recursive t p (JFloat m e) path r = None"
| "search_recursive t p (JStr s) path r = None"
| "search_items t p [] i path r = None"
| "search_items t p ((key, v) # rest) i path r =
     (case search_recursive t p v (key_path path key) (r @ [i]) of
        Some res \<Rightarrow> Some res
      | None \<Rightarrow> search_items t p rest (Suc i) path r)"
| "search_elems t p [] i path r = None"
| "search_elems t p (item # rest) i path r =
     (case search_recursive t p item (index_path path i) (r @ [i]) of
        Some res \<Rightarrow> Some res
      | None \<Rightarrow> search_elems t p rest (Suc i) path r)"

definition find_entry_by_rev :: "json \<Rightarrow> string \<Rightarrow> string \<Rightarrow> (string \<times> ref \<times> json) option" where
  "find_entry_by_rev data target_rev placeholder_hash =
     search_recursive target_rev placeholder_hash data [] []"

subsection \<open>Document order, as the specification words it\<close>

text \<open>
  Every node of a document with its path and reference, depth first: a node before its
  children, the values of an object in stored order, the elements of an array by index.
\<close>

fun document_order :: "json \<Rightarrow> string \<Rightarrow> ref \<Rightarrow> (string \<times> ref \<times> json) list"
  and items_order :: "(string \<times> json) list \<Rightarrow> nat \<Rightarrow> string \<Rightarrow> ref \<Rightarrow> (string \<times> ref \<times> json) list"
  and elems_order :: "json list \<Rightarrow> nat \<Rightarrow> string \<Rightarrow> ref \<Rightarrow> (string \<times> ref \<times> json) list" where
  "document_order (JObj obj) path r = (path, r, JObj obj) # items_order obj 0 path r"
| "document_order (JArr xs) path r = (path, r, JArr xs) # elems_order xs 0 path r"
| "document_order JNull path r = [(path, r, JNull)]"
| "document_order (JBool b) path r = [(path, r, JBool b)]"
| "document_order (JInt n) path r = [(path, r, JInt n)]"
| "document_order (JFloat m e) path r = [(path, r, JFloat m e)]"
| "document_order (JStr s) path r = [(path, r, JStr s)]"
| "items_order [] i path r = []"
| "items_order ((key, v) # rest) i path r =
     document_order v (key_path path key) (r @ [i]) @ items_order rest (Suc i) path r"
| "elems_order [] i path r = []"
| "elems_order (item # rest) i path r =
     document_order item (index_path path i) (r @ [i]) @ elems_order rest (Suc i) path r"

text \<open>
  Eligibility in the specification's words: a mapping node with a \<open>rev\<close> and a \<open>hash\<close>
  field, whose \<open>rev\<close> is the target and whose \<open>hash\<close> is the placeholder.
\<close>

fun eligible :: "string \<Rightarrow> string \<Rightarrow> json \<Rightarrow> bool" where
  "eligible t p (JObj obj) =
     (map_of obj ''rev'' = Some (JStr t) \<and> map_of obj ''hash'' = Some (JStr p))"
| "eligible t p _ = False"

definition eligible_node :: "string \<Rightarrow> string \<Rightarrow> string \<times> ref \<times> json \<Rightarrow> bool" where
  "eligible_node t p n = eligible t p (snd (snd n))"

section \<open>Python strings\<close>

text \<open>
  A Python string is a list of characters, each a code point below 256.  The operations
  are those the program calls: \<^verbatim>\<open>sub in s\<close>, \<^verbatim>\<open>s.count(sub)\<close>,
  \<^verbatim>\<open>s.replace(old, new)\<close>, \<^verbatim>\<open>s.split('/')[-1]\<close> and \<^verbatim>\<open>rev[:12] + "..."\<close>.
\<close>

definition starts_with :: "string \<Rightarrow> string \<Rightarrow> bool" where
  "starts_with s p = (take (length p) s = p)"

fun contains_str :: "string \<Rightarrow> string \<Rightarrow> bool" where
  "contains_str [] sub = (sub = [])"
| "contains_str (c # s) sub = (starts_with (c # s) sub \<or> contains_str s sub)"

text \<open>
  \<^verbatim>\<open>str.count\<close> scans from the left and, after an occurrence, goes on behind it: the
  occurrences counted do not overlap.  The empty string is counted once per position.
\<close>

function count_from :: "string \<Rightarrow> string \<Rightarrow> nat" where
  "count_from s sub =
     (if sub = [] \<or> s = [] then 0
      else if starts_with s sub then Suc (count_from (drop (length sub) s) sub)
      else count_from (tl s) sub)"
  by pat_completeness auto
termination
  by (relation "measure (\<lambda>(s, sub). length s)") auto

declare count_from.simps [simp del]

definition count_str :: "string \<Rightarrow> string \<Rightarrow> nat" where
  "count_str s sub = (if sub = [] then Suc (length s) else count_from s sub)"

function replace_from :: "string \<Rightarrow> string \<Rightarrow> string \<Rightarrow> string" where
  "replace_from s old new =
     (if old = [] \<or> s = [] then s
      else if starts_with s old then new @ replace_from (drop (length old) s) old new
      else hd s # replace_from (tl s) old new)"
  by pat_completeness auto
termination
  by (relation "measure (\<lambda>(s, old, new). length s)") auto

declare replace_from.simps [simp del]

definition replace_str :: "string \<Rightarrow> string \<Rightarrow> string \<Rightarrow> string" where
  "replace_str s old new =
     (if old = [] then new @ concat (map (\<lambda>c. c # new) s) else replace_from s old new)"

definition last_segment :: "string \<Rightarrow> string" where
  "last_segment s = rev (takeWhile (\<lambda>c. c \<noteq> CHR ''/'') (rev s))"

definition short_rev :: "string \<Rightarrow> string" where
  "short_rev rv = take 12 rv @ ''...''"

text \<open>Truth value of a loaded value (\<^verbatim>\<open>if not entry\<close>) and of an optional string.\<close>

fun truthy :: "json \<Rightarrow> bool" where
  "truthy JNull = False"
| "truthy (JBool b) = b"
| "truthy (JInt n) = (n \<noteq> 0)"
| "truthy (JFloat m e) = (m \<noteq> 0)"
| "truthy (JStr s) = (s \<noteq> [])"
| "truthy (JArr xs) = (xs \<noteq> [])"
| "truthy (JObj obj) = (obj \<noteq> [])"

definition truthy_str :: "string option \<Rightarrow> bool" where
  "truthy_str x = (case x of None \<Rightarrow> False | Some s \<Rightarrow> s \<noteq> [])"

section \<open>Storage\<close>

text \<open>
  A path holds no file, a file whose reading raises (with the text of the exception), or
  a text, as Python reads it in text mode.  Reading is \<^verbatim>\<open>open(filepath, 'r').read()\<close>,
  with \<open>Inl\<close> the text of the exception raised; writing replaces the text.
\<close>

datatype file_state = Missing | Unreadable string | Text string

type_synonym filesystem = "string \<Rightarrow> file_state"

definition no_such_file :: "string \<Rightarrow> string" where
  "no_such_file filepath = ''[Errno 2] No such file or directory: '' @ [CHR 0x27] @ filepath @ [CHR 0x27]"

definition read_text :: "filesystem \<Rightarrow> string \<Rightarrow> string + string" where
  "read_text fs filepath =
     (case fs filepath of
        Missing \<Rightarrow> Inl (no_such_file filepath)
      | Unreadable e \<Rightarrow> Inl e
      | Text content \<Rightarrow> Inr content)"

definition write_text :: "filesystem \<Rightarrow> string \<Rightarrow> string \<Rightarrow> filesystem" where
  "write_text fs filepath content = fs(filepath := Text content)"

definition path_exists :: "filesystem \<Rightarrow> string \<Rightarrow> bool" where
  "path_exists fs filepath = (fs filepath \<noteq> Missing)"

text \<open>
  The collaborators outside the program: the JSON library (\<open>Inl\<close> is the text of a
  \<^verbatim>\<open>JSONDecodeError\<close>), the build command (given the command, the number of builds run
  before and the storage), the outcome of the backup copy and the operator's answer
  (\<open>None\<close> at end of input).
\<close>

record process =
  returncode :: int
  stdout :: string
  stderr :: string

record env =
  json_load :: "string \<Rightarrow> string + json"
  json_dump :: "json \<Rightarrow> string"
  run_build_command :: "string \<Rightarrow> nat \<Rightarrow> filesystem \<Rightarrow> process"
  backup_path :: "string option"
  user_input :: "string option"

definition PLACEHOLDER_HASH :: string where
  "PLACEHOLDER_HASH = ''sha256-AAAAAAAAAAAAAAAAAAAAAAAAAAAAAAAAAAAAAAAAAAA=''"

section \<open>\<^verbatim>\<open>update_json_by_rev\<close>\<close>

text \<open>
  \<^verbatim>\<open>entry['hash'] = new_hash\<close> stores through the reference that the search returned:
  \<open>store_at\<close> rebuilds the document with the node at that position changed.
\<close>

fun store_at :: "ref \<Rightarrow> (json \<Rightarrow> json) \<Rightarrow> json \<Rightarrow> json"
  and store_items :: "(string \<times> json) list \<Rightarrow> nat \<Rightarrow> ref \<Rightarrow> (json \<Rightarrow> json) \<Rightarrow> (string \<times> json) list"
  and store_elems :: "json list \<Rightarrow> nat \<Rightarrow> ref \<Rightarrow> (json \<Rightarrow> json) \<Rightarrow> json list" where
  "store_at [] f d = f d"
| "store_at (i # r) f (JObj obj) = JObj (store_items obj i r f)"
| "store_at (i # r) f (JArr xs) = JArr (store_elems xs i r f)"
| "store_at (i # r) f JNull = JNull"
| "store_at (i # r) f (JBool b) = JBool b"
| "store_at (i # r) f (JInt n) = JInt n"
| "store_at (i # r) f (JFloat m e) = JFloat m e"
| "store_at (i # r) f (JStr s) = JStr s"
| "store_items [] i r f = []"
| "store_items ((k, v) # rest) 0 r f = (k, store_at r f v) # rest"
| "store_items ((k, v) # rest) (Suc i) r f = (k, v) # store_items rest i r f"
| "store_elems [] i r f = []"
| "store_elems (x # rest) 0 r f = store_at r f x # rest"
| "store_elems (x # rest) (Suc i) r f = x # store_elems rest i r f"

fun set_field :: "string \<Rightarrow> json \<Rightarrow> json \<Rightarrow> json" where
  "set_field k v (JObj obj) = JObj (AList.update k v obj)"
| "set_field k v d = d"

definition assign_hash :: "ref \<Rightarrow> string \<Rightarrow> json \<Rightarrow> json" where
  "assign_hash r new_hash data = store_at r (set_field ''hash'' (JStr new_hash)) data"

definition not_found_message :: "string \<Rightarrow> string" where
  "not_found_message target_rev =
     ''No entry found with rev '' @ [CHR 0x27] @ target_rev @ [CHR 0x27] @ '' and placeholder hash''"

text \<open>The result \<^verbatim>\<open>(success, message, entry_path)\<close>, and the storage afterwards.\<close>

definition update_json_by_rev ::
  "env \<Rightarrow> filesystem \<Rightarrow> string \<Rightarrow> string \<Rightarrow> string \<Rightarrow> string \<Rightarrow> bool
     \<Rightarrow> (bool \<times> string \<times> string option) \<times> filesystem" where
  "update_json_by_rev ev fs filepath target_rev new_hash placeholder_hash dry_run =
     (case read_text fs filepath of
        Inl e \<Rightarrow> ((False, ''Error updating file: '' @ e, None), fs)
      | Inr content \<Rightarrow>
          (case json_load ev content of
             Inl e \<Rightarrow> ((False, ''Invalid JSON in file: '' @ e, None), fs)
           | Inr data \<Rightarrow>
               (case find_entry_by_rev data target_rev placeholder_hash of
                  None \<Rightarrow> ((False, not_found_message target_rev, None), fs)
                | Some (entry_path, r, entry) \<Rightarrow>
                    if \<not> truthy entry then ((False, not_found_message target_rev, None), fs)
                    else if dry_run then
                      ((True, ''Would update hash for entry at path: '' @ entry_path,
                        Some entry_path), fs)
                    else
                      ((True, ''Updated hash for entry at path: '' @ entry_path,
                        Some entry_path),
                       write_text fs filepath (json_dump ev (assign_hash r new_hash data))))))"

section \<open>\<^verbatim>\<open>count_remaining_placeholders\<close>\<close>

definition count_remaining_placeholders :: "filesystem \<Rightarrow> string \<Rightarrow> string \<Rightarrow> nat" where
  "count_remaining_placeholders fs filepath placeholder_hash =
     (case read_text fs filepath of
        Inl e \<Rightarrow> 0
      | Inr content \<Rightarrow> count_str content placeholder_hash)"

section \<open>The patterns of the output parser\<close>

text \<open>
  The character classes of Python's \<^verbatim>\<open>re\<close> on strings, for code points below 256:
  \<^verbatim>\<open>\s\<close>, \<^verbatim>\<open>\w\<close>, \<^verbatim>\<open>[\w+/=]\<close> and \<^verbatim>\<open>[a-f0-9]\<close>.
\<close>

definition is_space :: "char \<Rightarrow> bool" where
  "is_space c = (let n = (of_char c :: nat) in
     (9 \<le> n \<and> n \<le> 13) \<or> (28 \<le> n \<and> n \<le> 32) \<or> n = 133 \<or> n = 160)"

definition is_word :: "char \<Rightarrow> bool" where
  "is_word c = (let n = (of_char c :: nat) in
     (48 \<le> n \<and> n \<le> 57) \<or> (65 \<le> n \<and> n \<le> 90) \<or> n = 95 \<or> (97 \<le> n \<and> n \<le> 122)
     \<or> n = 170 \<or> n = 178 \<or> n = 179 \<or> n = 181 \<or> n = 185 \<or> n = 186
     \<or> (188 \<le> n \<and> n \<le> 190) \<or> (192 \<le> n \<and> n \<le> 214) \<or> (216 \<le> n \<and> n \<le> 246)
     \<or> (248 \<le> n \<and> n \<le> 255))"

definition hash_char :: "char \<Rightarrow> bool" where
  "hash_char c = (is_word c \<or> c = CHR ''+'' \<or> c = CHR ''/'' \<or> c = CHR ''='')"

definition hex_char :: "char \<Rightarrow> bool" where
  "hex_char c = (let n = (of_char c :: nat) in (48 \<le> n \<and> n \<le> 57) \<or> (97 \<le> n \<and> n \<le> 102))"

text \<open>
  \<^verbatim>\<open>re.search\<close> tries the pattern at every position from the left and returns the
  first match; \<open>m\<close> matches the pattern at the start of its argument and returns the
  groups.
\<close>

fun re_search :: "(string \<Rightarrow> 'a option) \<Rightarrow> string \<Rightarrow> 'a option" where
  "re_search m [] = m []"
| "re_search m (c # s) = (case m (c # s) of Some g \<Rightarrow> Some g | None \<Rightarrow> re_search m s)"

definition strip_prefix :: "string \<Rightarrow> string \<Rightarrow> string option" where
  "strip_prefix p s = (if starts_with s p then Some (drop (length p) s) else None)"

text \<open>
  The shapes of the patterns.  A repetition is greedy; where the text after it starts
  with a character outside its class, only the longest run matches.

  \<open>lit_run_lit l1 P l2\<close> is a literal, one or more characters of the class \<open>P\<close> and a
  second literal; the result is the run and the rest of the text.
\<close>

definition lit_run_lit :: "string \<Rightarrow> (char \<Rightarrow> bool) \<Rightarrow> string \<Rightarrow> string \<Rightarrow> (string \<times> string) option" where
  "lit_run_lit l1 P l2 s =
     (case strip_prefix l1 s of
        None \<Rightarrow> None
      | Some a \<Rightarrow>
          if takeWhile P a = [] then None
          else
            (case strip_prefix l2 (dropWhile P a) of
               None \<Rightarrow> None
             | Some t \<Rightarrow> Some (takeWhile P a, t)))"

text \<open>
  \<open>lit_run_token l1 P l2 Q\<close> is a literal, a run of \<open>P\<close>, and a group of the second
  literal and a run of \<open>Q\<close> that ends the pattern; the result is the group.
\<close>

definition lit_run_token :: "string \<Rightarrow> (char \<Rightarrow> bool) \<Rightarrow> string \<Rightarrow> (char \<Rightarrow> bool) \<Rightarrow> string \<Rightarrow> string option" where
  "lit_run_token l1 P l2 Q s =
     (case lit_run_lit l1 P l2 s of
        None \<Rightarrow> None
      | Some (ws, t) \<Rightarrow>
          if takeWhile Q t = [] then None else Some (l2 @ takeWhile Q t))"

text \<open>
  A greedy run that is followed by more of the pattern first takes \<open>n\<close> characters and,
  while the rest of the pattern (\<open>tail\<close>) does not match, gives back one character at a
  time, down to one.  The result is the run and what the tail returned.
\<close>

fun greedy :: "(string \<Rightarrow> 'a option) \<Rightarrow> nat \<Rightarrow> string \<Rightarrow> (string \<times> 'a) option" where
  "greedy tail 0 rest = None"
| "greedy tail (Suc n) rest =
     (case tail (drop (Suc n) rest) of
        Some x \<Rightarrow> Some (take (Suc n) rest, x)
      | None \<Rightarrow> greedy tail n rest)"

text \<open>
  \<open>lit_greedy l1 P tail\<close> is a literal, one or more characters of the class \<open>P\<close>, and
  the tail.
\<close>

definition lit_greedy :: "string \<Rightarrow> (char \<Rightarrow> bool) \<Rightarrow> (string \<Rightarrow> 'a option) \<Rightarrow> string \<Rightarrow> (string \<times> 'a) option" where
  "lit_greedy l1 P tail s =
     (case strip_prefix l1 s of
        None \<Rightarrow> None
      | Some rest \<Rightarrow> greedy tail (length (takeWhile P rest)) rest)"

text \<open>\<^verbatim>\<open>got:\s+(sha256-[\w+/=]+)\<close>\<close>

definition match_hash :: "string \<Rightarrow> string option" where
  "match_hash s = lit_run_token ''got:'' is_space ''sha256-'' hash_char s"

text \<open>\<^verbatim>\<open>unpacking source archive /build/([a-f0-9]+)\.tar\.gz\<close>\<close>

definition match_rev :: "string \<Rightarrow> string option" where
  "match_rev s =
     map_option fst (lit_run_lit ''unpacking source archive /build/'' hex_char ''.tar.gz'' s)"

text \<open>
  \<^verbatim>\<open>trying (https://[^\s]+/\+archive/([a-f0-9]+)\.tar\.gz)\<close>; the result is the two
  groups.
\<close>

definition not_space :: "char \<Rightarrow> bool" where
  "not_space c = (\<not> is_space c)"

definition archive_tail :: "string \<Rightarrow> string option" where
  "archive_tail s = map_option fst (lit_run_lit ''/+archive/'' hex_char ''.tar.gz'' s)"

definition match_url :: "string \<Rightarrow> (string \<times> string) option" where
  "match_url s =
     (case lit_greedy ''trying https://'' not_space archive_tail s of
        None \<Rightarrow> None
      | Some (u, h) \<Rightarrow> Some (''https://'' @ u @ ''/+archive/'' @ h @ ''.tar.gz'', h))"

text \<open>
  \<^verbatim>\<open>trying (https://[^\s]+/\+archive/<rev>\.tar\.gz)\<close>, where \<^verbatim>\<open>re.escape(rev)\<close> makes
  the revision match literally.
\<close>

definition match_url_rev :: "string \<Rightarrow> string \<Rightarrow> string option" where
  "match_url_rev rv s =
     (case lit_greedy ''trying https://'' not_space
             (strip_prefix (''/+archive/'' @ rv @ ''.tar.gz'')) s of
        None \<Rightarrow> None
      | Some (u, t) \<Rightarrow> Some (''https://'' @ u @ ''/+archive/'' @ rv @ ''.tar.gz''))"

section \<open>\<^verbatim>\<open>extract_hash_mismatch_info\<close>\<close>

text \<open>The result \<^verbatim>\<open>(rev, new_hash, url)\<close>, each \<^verbatim>\<open>None\<close> or a string.\<close>

definition extract_hash_mismatch_info :: "string \<Rightarrow> string option \<times> string option \<times> string option" where
  "extract_hash_mismatch_info output =
     (case re_search match_hash output of
        None \<Rightarrow> (None, None, None)
      | Some new_hash \<Rightarrow>
          (case re_search match_rev output of
             None \<Rightarrow>
               (case re_search match_url output of
                  Some (g1, g2) \<Rightarrow>
                    (Some g2, Some new_hash,
                     Some (replace_str g1 (''/+archive/'' @ g2 @ ''.tar.gz'') []))
                | None \<Rightarrow> (None, Some new_hash, None))
           | Some rv \<Rightarrow>
               (Some rv, Some new_hash,
                case re_search (match_url_rev rv) output of
                  Some g1 \<Rightarrow> Some (replace_str g1 (''/+archive/'' @ rv @ ''.tar.gz'') [])
                | None \<Rightarrow> None)))"

section \<open>\<^verbatim>\<open>get_entry_description\<close>\<close>

text \<open>\<^verbatim>\<open>github\.com/([^/]+/[^/]+)\<close>\<close>

definition not_slash :: "char \<Rightarrow> bool" where
  "not_slash c = (c \<noteq> CHR ''/'')"

definition match_github :: "string \<Rightarrow> string option" where
  "match_github s =
     (case lit_run_lit ''github.com/'' not_slash ''/'' s of
        None \<Rightarrow> None
      | Some (owner, t) \<Rightarrow>
          if takeWhile not_slash t = [] then None
          else Some (owner @ ''/'' @ takeWhile not_slash t))"

text \<open>
  \<^verbatim>\<open>chromium\.googlesource\.com/(.+?)(?:\.git)?$\<close>.  The group is lazy: it takes one
  character (never a newline) at a time until the rest is an optional \<^verbatim>\<open>.git\<close> and the
  end of the string, which \<^verbatim>\<open>$\<close> also sees before a final newline.
\<close>

definition at_end :: "string \<Rightarrow> bool" where
  "at_end r = (r = [] \<or> r = [CHR 0x0A])"

fun lazy_name :: "string \<Rightarrow> string \<Rightarrow> string option" where
  "lazy_name acc [] = (if acc \<noteq> [] then Some acc else None)"
| "lazy_name acc (c # r) =
     (if acc \<noteq> [] \<and> ((starts_with (c # r) ''.git'' \<and> at_end (drop 4 (c # r))) \<or> at_end (c # r))
      then Some acc
      else if c = CHR 0x0A then None
      else lazy_name (acc @ [c]) r)"

definition match_chromium :: "string \<Rightarrow> string option" where
  "match_chromium s =
     (case strip_prefix ''chromium.googlesource.com/'' s of
        None \<Rightarrow> None
      | Some r \<Rightarrow> lazy_name [] r)"

text \<open>The name taken from the \<^verbatim>\<open>url\<close> of an entry, when that is a string.\<close>

definition url_name :: "string \<Rightarrow> string" where
  "url_name url =
     (let fallback = replace_str (last_segment url) ''.git'' [] in
      if contains_str url ''github.com'' then
        (case re_search match_github url of Some g \<Rightarrow> g | None \<Rightarrow> fallback)
      else if contains_str url ''chromium.googlesource.com'' then
        (case re_search match_chromium url of Some g \<Rightarrow> g | None \<Rightarrow> fallback)
      else fallback)"

text \<open>
  The search is for the module's constant \<open>PLACEHOLDER_HASH\<close>.  Every exception ends in
  the bare \<^verbatim>\<open>except\<close>: a file that cannot be read or parsed, and a \<^verbatim>\<open>url\<close> that is not
  a string (then \<^verbatim>\<open>in\<close>, \<^verbatim>\<open>re.search\<close> or \<^verbatim>\<open>url.split\<close> raises).
\<close>

definition get_entry_description :: "env \<Rightarrow> filesystem \<Rightarrow> string \<Rightarrow> string \<Rightarrow> string" where
  "get_entry_description ev fs filepath rv =
     (case read_text fs filepath of
        Inl e \<Rightarrow> short_rev rv
      | Inr content \<Rightarrow>
          (case json_load ev content of
             Inl e \<Rightarrow> short_rev rv
           | Inr data \<Rightarrow>
               (case find_entry_by_rev data rv PLACEHOLDER_HASH of
                  None \<Rightarrow> short_rev rv
                | Some (path, r, entry) \<Rightarrow>
                    (if truthy entry then
                       (case entry of
                          JObj obj \<Rightarrow>
                            (case map_of obj ''url'' of
                               Some (JStr url) \<Rightarrow> url_name url
                             | _ \<Rightarrow> short_rev rv)
                        | _ \<Rightarrow> short_rev rv)
                     else short_rev rv))))"

section \<open>\<^verbatim>\<open>print_summary\<close>\<close>

text \<open>
  The lines of the summary, for the list of \<^verbatim>\<open>(rev, new_hash, description)\<close>.  The
  pictograph before the heading and the line of the elapsed time, which depends on the
  clock, are left out.
\<close>

definition entry_lines :: "nat \<times> string \<times> string \<times> string \<Rightarrow> string list" where
  "entry_lines e =
     (case e of (i, rv, new_hash, description) \<Rightarrow>
        [''  '' @ str_nat i @ ''. '' @ description,
         ''     Rev: '' @ take 12 rv @ ''...'',
         ''     Hash: '' @ new_hash])"

definition print_summary :: "(string \<times> string \<times> string) list \<Rightarrow> string list" where
  "print_summary replacements =
     [[], replicate 80 CHR ''='', ''SUMMARY'', replicate 80 CHR ''='',
      ''Total entries updated: '' @ str_nat (length replacements)]
     @ (if replacements \<noteq> [] then
          [[], ''Updated entries:'']
          @ concat (map entry_lines (zip [1..<Suc (length replacements)] replacements))
        else [])
     @ [replicate 80 CHR ''='']"

section \<open>\<^verbatim>\<open>main\<close>\<close>

record args =
  dry_run :: bool
  json_file :: string
  build_command :: string
  max_iterations :: int
  no_backup :: bool
  verbose :: bool
  placeholder_hash :: string

text \<open>
  The state of the loop: the storage, the list \<^verbatim>\<open>replacements\<close>, the set
  \<^verbatim>\<open>processed_revs\<close>, and the number of calls of \<^verbatim>\<open>run_build_command\<close> made so far.
\<close>

record run_state =
  storage :: filesystem
  replacements :: "(string \<times> string \<times> string) list"
  processed_revs :: "string set"
  builds :: nat

text \<open>
  How one pass through the body of the loop ends: at its end or at a \<^verbatim>\<open>continue\<close>, at a
  \<^verbatim>\<open>break\<close>, or in \<^verbatim>\<open>sys.exit\<close>.
\<close>

datatype flow = Continue run_state | Break run_state | Exit int run_state

text \<open>The branch \<^verbatim>\<open>if new_hash and rev\<close> of the body.\<close>

definition fix_entry :: "env \<Rightarrow> args \<Rightarrow> run_state \<Rightarrow> string \<Rightarrow> string \<Rightarrow> flow" where
  "fix_entry ev a st rv new_hash =
     (if rv \<in> processed_revs st then Continue st
      else
        (let st1 = st\<lparr>processed_revs := insert rv (processed_revs st)\<rparr>;
             description = get_entry_description ev (storage st1) (json_file a) rv
         in case update_json_by_rev ev (storage st1) (json_file a) rv new_hash
                   (placeholder_hash a) (dry_run a) of
              ((success, message, entry_path), fs) \<Rightarrow>
                if success then
                  (let st2 = st1\<lparr>storage := fs,
                         replacements := replacements st1 @ [(rv, new_hash, description)]\<rparr>;
                       remaining = count_remaining_placeholders fs (json_file a) (placeholder_hash a)
                   in if remaining = 0 then
                        (if \<not> dry_run a then Continue st2 else Break st2)
                      else Continue st2)
                else
                  (if contains_str message ''No entry found''
                   then Continue (st1\<lparr>storage := fs\<rparr>)
                   else Continue (st1\<lparr>storage := fs\<rparr>))))"

text \<open>The body of \<^verbatim>\<open>for iteration in range(args.max_iterations)\<close>.\<close>

definition iteration :: "env \<Rightarrow> args \<Rightarrow> run_state \<Rightarrow> flow" where
  "iteration ev a st =
     (let process = run_build_command ev (build_command a) (builds st) (storage st);
          st1 = st\<lparr>builds := Suc (builds st)\<rparr>
      in if returncode process = 0 then Break st1
         else
           (case extract_hash_mismatch_info (stderr process) of
              (rv, new_hash, url) \<Rightarrow>
                if truthy_str new_hash \<and> truthy_str rv then fix_entry ev a st1 (the rv) (the new_hash)
                else if truthy_str new_hash then Continue st1
                else Exit 1 st1))"

text \<open>
  The ways a run ends.  \<open>Success\<close> is a \<^verbatim>\<open>break\<close> (the build succeeded, or a dry run
  has no placeholder left), \<open>ExhaustedIterations\<close> the \<^verbatim>\<open>else\<close> of the loop,
  \<open>UnrecoverableBuildFailure\<close> the \<^verbatim>\<open>sys.exit(1)\<close> in the body; the others end the run
  before the loop.
\<close>

datatype terminal =
    Success
  | ExhaustedIterations
  | UnrecoverableBuildFailure
  | UserAborted
  | ManifestNotFound
  | ManifestInvalid
  | NothingToDo
  | UnexpectedError

text \<open>The loop with \<open>n\<close> iterations left: how it ends, and the state then.\<close>

fun for_loop :: "env \<Rightarrow> args \<Rightarrow> nat \<Rightarrow> run_state \<Rightarrow> terminal \<times> run_state" where
  "for_loop ev a 0 st = (ExhaustedIterations, st)"
| "for_loop ev a (Suc n) st =
     (case iteration ev a st of
        Continue st' \<Rightarrow> for_loop ev a n st'
      | Break st' \<Rightarrow> (Success, st')
      | Exit code st' \<Rightarrow> (UnrecoverableBuildFailure, st'))"

text \<open>
  What a run leaves: the exit status of the process, how it ended, the lines of the
  summary if \<^verbatim>\<open>print_summary\<close> was called, and the last state.
\<close>

record outcome =
  exit_status :: int
  ended :: terminal
  summary :: "string list option"
  final :: run_state

definition initial_state :: "filesystem \<Rightarrow> run_state" where
  "initial_state fs = \<lparr>storage = fs, replacements = [], processed_revs = {}, builds = 0\<rparr>"

definition exit_early :: "int \<Rightarrow> terminal \<Rightarrow> filesystem \<Rightarrow> outcome" where
  "exit_early code t fs =
     \<lparr>exit_status = code, ended = t, summary = None, final = initial_state fs\<rparr>"

text \<open>From \<^verbatim>\<open>initial_count = count_remaining_placeholders(...)\<close> to the end of \<^verbatim>\<open>main\<close>.\<close>

definition run_loop :: "env \<Rightarrow> args \<Rightarrow> filesystem \<Rightarrow> outcome" where
  "run_loop ev a fs =
     (if count_remaining_placeholders fs (json_file a) (placeholder_hash a) > 0 then
        (case for_loop ev a (nat (max_iterations a)) (initial_state fs) of
           (UnrecoverableBuildFailure, st) \<Rightarrow>
             \<lparr>exit_status = 1, ended = UnrecoverableBuildFailure, summary = None, final = st\<rparr>
         | (t, st) \<Rightarrow>
             \<lparr>exit_status = 0, ended = t, summary = Some (print_summary (replacements st)),
              final = st\<rparr>)
      else exit_early 0 NothingToDo fs)"

text \<open>\<^verbatim>\<open>input().lower() != 'y'\<close>: only \<^verbatim>\<open>y\<close> and \<^verbatim>\<open>Y\<close> have the lower case \<^verbatim>\<open>y\<close>.\<close>

definition answers_yes :: "string \<Rightarrow> bool" where
  "answers_yes s = (s = ''y'' \<or> s = ''Y'')"

text \<open>
  An exception that \<^verbatim>\<open>main\<close> does not catch (the manifest exists and cannot be read, the
  input is at its end) ends the run in the handler of the module, with status 1.  The
  copy that \<^verbatim>\<open>backup_file\<close> makes is at a path of its own, which nothing reads, and is
  not kept in the storage.
\<close>

definition main :: "env \<Rightarrow> args \<Rightarrow> filesystem \<Rightarrow> outcome" where
  "main ev a fs =
     (if \<not> path_exists fs (json_file a) then exit_early 1 ManifestNotFound fs
      else
        (case read_text fs (json_file a) of
           Inl e \<Rightarrow> exit_early 1 UnexpectedError fs
         | Inr content \<Rightarrow>
             (case json_load ev content of
                Inl e \<Rightarrow> exit_early 1 ManifestInvalid fs
              | Inr data \<Rightarrow>
                  if \<not> no_backup a \<and> \<not> dry_run a \<and> \<not> truthy_str (backup_path ev) then
                    (case user_input ev of
                       None \<Rightarrow> exit_early 1 UnexpectedError fs
                     | Some answer \<Rightarrow>
                         if \<not> answers_yes answer then exit_early 0 UserAborted fs
                         else run_loop ev a fs)
                  else run_loop ev a fs)))"

section \<open>Example inputs\<close>

text \<open>
  A manifest with three entries of one revision: the first is resolved, the other two
  hold the placeholder \<open>P\<close>.
\<close>

definition three_entries :: json where
  "three_entries = JObj [(''deps'', JArr [
      JObj [(''rev'', JStr ''abc''), (''hash'', JStr ''sha256-done'')],
      JObj [(''rev'', JStr ''abc''), (''hash'', JStr ''P''), (''url'', JStr ''u'')],
      JObj [(''rev'', JStr ''abc''), (''hash'', JStr ''P'')]])]"

text \<open>
  The number of substring occurrences of a token in a text, in the specification's words:
  the number of positions of the text at which the token stands.
\<close>

definition occurs_at :: "string \<Rightarrow> string \<Rightarrow> nat \<Rightarrow> bool" where
  "occurs_at s sub i = (i + length sub \<le> length s \<and> take (length sub) (drop i s) = sub)"

definition occurrences :: "string \<Rightarrow> string \<Rightarrow> nat" where
  "occurrences s sub = length (filter (occurs_at s sub) [0..<Suc (length s)])"

text \<open>
  That a text holds \<open>k\<close> occurrences of a token which do not overlap: it is \<open>k\<close> times
  a gap and the token, and a rest.
\<close>

definition non_overlapping :: "string \<Rightarrow> string \<Rightarrow> nat \<Rightarrow> bool" where
  "non_overlapping s sub k =
     (\<exists>gaps rest. length gaps = k \<and> s = concat (map (\<lambda>g. g @ sub) gaps) @ rest)"

text \<open>
  A manifest of one entry, of revision \<open>abc123\<close> with the hash \<open>h\<close>: the text of the file
  and the document it parses to.
\<close>

definition quoted :: "string \<Rightarrow> string" where
  "quoted s = [CHR 0x22] @ s @ [CHR 0x22]"

definition manifest_text :: "string \<Rightarrow> string" where
  "manifest_text h =
     ''{'' @ quoted ''rev'' @ '': '' @ quoted ''abc123'' @ '', ''
       @ quoted ''hash'' @ '': '' @ quoted h @ '', ''
       @ quoted ''url'' @ '': '' @ quoted ''https://github.com/org/repo'' @ ''}''"

definition manifest_doc :: "string \<Rightarrow> json" where
  "manifest_doc h =
     JObj [(''rev'', JStr ''abc123''), (''hash'', JStr h),
           (''url'', JStr ''https://github.com/org/repo'')]"

text \<open>
  A JSON library for the examples, which knows the manifests of the hashes \<open>hs\<close>, and an
  environment with it, with a given build command and a backup that succeeds.
\<close>

definition example_load :: "string list \<Rightarrow> string \<Rightarrow> string + json" where
  "example_load hs s =
     (case List.find (\<lambda>h. manifest_text h = s) hs of
        Some h \<Rightarrow> Inr (manifest_doc h)
      | None \<Rightarrow> Inl ''Expecting value: line 1 column 1 (char 0)'')"

definition example_dump :: "string list \<Rightarrow> json \<Rightarrow> string" where
  "example_dump hs d =
     (case List.find (\<lambda>h. manifest_doc h = d) hs of
        Some h \<Rightarrow> manifest_text h
      | None \<Rightarrow> [])"

definition example_env :: "string list \<Rightarrow> (string \<Rightarrow> nat \<Rightarrow> filesystem \<Rightarrow> process) \<Rightarrow> env" where
  "example_env hs build =
     \<lparr>json_load = example_load hs, json_dump = example_dump hs, run_build_command = build,
      backup_path = Some ''.info.json.backup_20240101_000000'', user_input = None\<rparr>"

definition example_fs :: "string \<Rightarrow> filesystem" where
  "example_fs content = (\<lambda>p. Missing)(''info.json'' := Text content)"

definition build_ok :: "string \<Rightarrow> nat \<Rightarrow> filesystem \<Rightarrow> process" where
  "build_ok command k fs = \<lparr>returncode = 0, stdout = [], stderr = []\<rparr>"

text \<open>
  What the specification calls a line of the computed hash, of the unpacked source
  archive and of the archive URL: the text holds a match of the pattern, whatever the
  rest of the text is.
\<close>

definition has_computed_hash :: "string \<Rightarrow> bool" where
  "has_computed_hash output =
     (\<exists>pre ws tok post. output = pre @ ''got:'' @ ws @ ''sha256-'' @ tok @ post
        \<and> ws \<noteq> [] \<and> (\<forall>c\<in>set ws. is_space c) \<and> tok \<noteq> [] \<and> (\<forall>c\<in>set tok. hash_char c))"



text \<open>
  Arguments of a run on \<open>info.json\<close> with the default placeholder, and a build command
  that always fails with a given error text.
\<close>

definition example_args :: "bool \<Rightarrow> int \<Rightarrow> args" where
  "example_args dry n =
     \<lparr>dry_run = dry, json_file = ''info.json'', build_command = ''nix build .#default'',
      max_iterations = n, no_backup = False, verbose = False,
      placeholder_hash = PLACEHOLDER_HASH\<rparr>"

definition build_fails :: "string \<Rightarrow> string \<Rightarrow> nat \<Rightarrow> filesystem \<Rightarrow> process" where
  "build_fails err command k fs = \<lparr>returncode = 1, stdout = [], stderr = err\<rparr>"


definition unrelated_failure :: string where
  "unrelated_failure =
     ''trying https://chromium.googlesource.com/x/+archive/abc123.tar.gz'' @ [CHR 0x0A]
     @ ''unpacking source archive /build/abc123.tar.gz'' @ [CHR 0x0A]
     @ ''error: builder failed with exit code 2'' @ [CHR 0x0A]"

text \<open>
  The state in which one pass through the body of the loop ends, and the property of a
  state that no revision is in the list of replacements twice and every revision in
  that list is in the set of processed revisions.
\<close>

fun flow_state :: "flow \<Rightarrow> run_state" where
  "flow_state (Continue st) = st"
| "flow_state (Break st) = st"
| "flow_state (Exit code st) = st"

definition patched_once :: "run_state \<Rightarrow> bool" where
  "patched_once st =
     (distinct (map fst (replacements st)) \<and> fst ` set (replacements st) \<subseteq> processed_revs st)"


definition mismatch_abc123 :: string where
  "mismatch_abc123 =
     ''unpacking source archive /build/abc123.tar.gz'' @ [CHR 0x0A]
     @ ''error: hash mismatch in fixed-output derivation'' @ [CHR 0x0A]
     @ ''         specified: '' @ PLACEHOLDER_HASH @ [CHR 0x0A]
     @ ''            got:    sha256-NEWHASH'' @ [CHR 0x0A]"




section \<open>Properties\<close>

subsection \<open>The locator\<close>

lemma find_app:
  "List.find P (xs @ ys) = (case List.find P xs of Some x \<Rightarrow> Some x | None \<Rightarrow> List.find P ys)"
  by (induction xs) simp_all

lemma find_holds: "List.find P xs = Some x \<Longrightarrow> P x"
  by (induction xs) (auto split: if_splits)

lemma eligible_matches: "eligible t p (JObj obj) = matches_entry t p obj"
  by (auto simp: matches_entry_def split: option.splits)

lemma search_is_find:
  "search_recursive t p d path r = List.find (eligible_node t p) (document_order d path r)"
  "search_items t p kvs i path r = List.find (eligible_node t p) (items_order kvs i path r)"
  "search_elems t p xs i path r = List.find (eligible_node t p) (elems_order xs i path r)"
proof (induction t p d path r and t p kvs i path r and t p xs i path r
       rule: search_recursive_search_items_search_elems.induct)
  case (1 t p obj path r)
  then show ?case by (simp add: eligible_node_def eligible_matches del: eligible.simps)
next
  case (9 t p key v rest i path r)
  then show ?case by (simp add: find_app split: option.splits)
next
  case (11 t p item rest i path r)
  then show ?case by (simp add: find_app split: option.splits)
qed (simp_all add: eligible_node_def)

lemma eligible_fields:
  "eligible t p e \<Longrightarrow>
     \<exists>obj. e = JObj obj \<and> map_of obj ''rev'' = Some (JStr t) \<and> map_of obj ''hash'' = Some (JStr p)"
  by (cases e) simp_all

text \<open>
  C3.  The locator returns at most one entry (its result is an option): the first node,
  in depth-first document order, that is eligible, and none if no node is.  A node is
  eligible only if it is a mapping with a \<open>rev\<close> field equal to the target and a \<open>hash\<close>
  field equal to the placeholder, so an entry of the revision with another hash is
  never returned.
\<close>

theorem find_entry_by_rev_first_eligible:
  "find_entry_by_rev data t p = List.find (eligible_node t p) (document_order data [] [])
   \<and> (\<forall>path r e. find_entry_by_rev data t p = Some (path, r, e) \<longrightarrow>
        (\<exists>obj. e = JObj obj \<and> map_of obj ''rev'' = Some (JStr t)
           \<and> map_of obj ''hash'' = Some (JStr p)))"
proof -
  have eq: "find_entry_by_rev data t p = List.find (eligible_node t p) (document_order data [] [])"
    by (simp add: find_entry_by_rev_def search_is_find(1))
  have "eligible t p e" if "find_entry_by_rev data t p = Some (path, r, e)" for path r e
    using that find_holds [of "eligible_node t p" "document_order data [] []" "(path, r, e)"]
    unfolding eq by (simp add: eligible_node_def)
  then show ?thesis using eq eligible_fields by blast
qed

theorem find_entry_by_rev_first_eligible_witness:
  "find_entry_by_rev three_entries ''abc'' ''P''
     = Some (''deps[1]'', [0, 1],
         JObj [(''rev'', JStr ''abc''), (''hash'', JStr ''P''), (''url'', JStr ''u'')])
   \<and> List.find (eligible_node ''abc'' ''P'') (document_order three_entries [] [])
     = Some (''deps[1]'', [0, 1],
         JObj [(''rev'', JStr ''abc''), (''hash'', JStr ''P''), (''url'', JStr ''u'')])"
proof -
  have "find_entry_by_rev three_entries ''abc'' ''P''
     = Some (''deps[1]'', [0, 1],
         JObj [(''rev'', JStr ''abc''), (''hash'', JStr ''P''), (''url'', JStr ''u'')])"
    by code_simp
  then show ?thesis
    using find_entry_by_rev_first_eligible [of three_entries "''abc''" "''P''"] by simp
qed

subsection \<open>The patcher\<close>

lemma eligible_truthy: "eligible t p e \<Longrightarrow> truthy e"
  by (cases e) auto

lemma find_entry_eligible:
  "find_entry_by_rev data t p = Some (path, r, e) \<Longrightarrow> eligible t p e"
  using find_holds [of "eligible_node t p" "document_order data [] []" "(path, r, e)"]
  by (simp add: find_entry_by_rev_def search_is_find(1) eligible_node_def)

lemma starts_with_contains: "starts_with s sub \<Longrightarrow> contains_str s sub"
  by (cases s) (simp_all add: starts_with_def)

lemma not_found_message_contains: "contains_str (not_found_message rv) ''No entry found''"
  by (rule starts_with_contains) (simp add: not_found_message_def starts_with_def)

text \<open>
  C5.  The patcher changes the storage only when an entry is found and the run is not a
  preview.  When no entry matches the revision and the placeholder, the result is a
  failure whose message says \<open>No entry found\<close>, and the storage is as before.  In
  preview mode the storage is always as before, and a found entry gives success with a
  message of what would change.
\<close>

theorem update_json_by_rev_guarded:
  "(read_text fs filepath = Inr content \<and> json_load ev content = Inr data
      \<and> find_entry_by_rev data rv placeholder = None \<longrightarrow>
        update_json_by_rev ev fs filepath rv new_hash placeholder dry
          = ((False, not_found_message rv, None), fs)
        \<and> contains_str (not_found_message rv) ''No entry found'')
   \<and> (read_text fs filepath = Inr content \<and> json_load ev content = Inr data
      \<and> find_entry_by_rev data rv placeholder = Some (path, r, e) \<longrightarrow>
        update_json_by_rev ev fs filepath rv new_hash placeholder True
          = ((True, ''Would update hash for entry at path: '' @ path, Some path), fs))
   \<and> snd (update_json_by_rev ev fs filepath rv new_hash placeholder True) = fs
   \<and> (snd (update_json_by_rev ev fs filepath rv new_hash placeholder dry) \<noteq> fs \<longrightarrow>
        \<not> dry \<and> (\<exists>content data path r e. read_text fs filepath = Inr content
           \<and> json_load ev content = Inr data
           \<and> find_entry_by_rev data rv placeholder = Some (path, r, e)))"
proof (intro conjI impI)
  assume "read_text fs filepath = Inr content \<and> json_load ev content = Inr data
      \<and> find_entry_by_rev data rv placeholder = None"
  then show "update_json_by_rev ev fs filepath rv new_hash placeholder dry
          = ((False, not_found_message rv, None), fs)"
    by (simp add: update_json_by_rev_def)
next
  show "contains_str (not_found_message rv) ''No entry found''"
    by (rule not_found_message_contains)
next
  assume a: "read_text fs filepath = Inr content \<and> json_load ev content = Inr data
      \<and> find_entry_by_rev data rv placeholder = Some (path, r, e)"
  then have "truthy e" using find_entry_eligible eligible_truthy by blast
  with a show "update_json_by_rev ev fs filepath rv new_hash placeholder True
          = ((True, ''Would update hash for entry at path: '' @ path, Some path), fs)"
    by (simp add: update_json_by_rev_def)
next
  show "snd (update_json_by_rev ev fs filepath rv new_hash placeholder True) = fs"
    by (simp add: update_json_by_rev_def split: sum.splits option.splits)
next
  assume "snd (update_json_by_rev ev fs filepath rv new_hash placeholder dry) \<noteq> fs"
  then have "\<not> dry \<and> (\<exists>content data path r e. read_text fs filepath = Inr content
           \<and> json_load ev content = Inr data
           \<and> find_entry_by_rev data rv placeholder = Some (path, r, e))"
    by (auto simp: update_json_by_rev_def split: sum.splits option.splits if_splits)
  then show "\<not> dry" and "\<exists>content data path r e. read_text fs filepath = Inr content
           \<and> json_load ev content = Inr data
           \<and> find_entry_by_rev data rv placeholder = Some (path, r, e)"
    by blast+
qed

theorem update_json_by_rev_guarded_witness:
  "update_json_by_rev (example_env [''P'', ''N''] build_ok) (example_fs (manifest_text ''P''))
       ''info.json'' ''ffff'' ''N'' ''P'' False
     = ((False, not_found_message ''ffff'', None), example_fs (manifest_text ''P''))
   \<and> update_json_by_rev (example_env [''P'', ''N''] build_ok) (example_fs (manifest_text ''P''))
       ''info.json'' ''abc123'' ''N'' ''P'' True
     = ((True, ''Would update hash for entry at path: '', Some []), example_fs (manifest_text ''P''))
   \<and> snd (update_json_by_rev (example_env [''P'', ''N''] build_ok) (example_fs (manifest_text ''P''))
       ''info.json'' ''abc123'' ''N'' ''P'' False) ''info.json'' = Text (manifest_text ''N'')
   \<and> find_entry_by_rev (manifest_doc ''P'') ''abc123'' ''P'' = Some ([], [], manifest_doc ''P'')"
proof -
  let ?ev = "example_env [''P'', ''N''] build_ok"
  let ?fs = "example_fs (manifest_text ''P'')"
  have rd: "read_text ?fs ''info.json'' = Inr (manifest_text ''P'')"
    by (simp add: read_text_def example_fs_def)
  have ld: "json_load ?ev (manifest_text ''P'') = Inr (manifest_doc ''P'')"
    by (simp add: example_env_def example_load_def)
  have none: "find_entry_by_rev (manifest_doc ''P'') ''ffff'' ''P'' = None"
    by code_simp
  have some: "find_entry_by_rev (manifest_doc ''P'') ''abc123'' ''P'' = Some ([], [], manifest_doc ''P'')"
    by code_simp
  have wr: "snd (update_json_by_rev ?ev ?fs ''info.json'' ''abc123'' ''N'' ''P'' False) ''info.json''
      = Text (manifest_text ''N'')"
    by code_simp
  have "manifest_text ''N'' \<noteq> manifest_text ''P''"
    by (simp add: manifest_text_def quoted_def)
  then have "?fs ''info.json'' \<noteq> Text (manifest_text ''N'')"
    by (simp add: example_fs_def)
  with wr have ch: "snd (update_json_by_rev ?ev ?fs ''info.json'' ''abc123'' ''N'' ''P'' False) \<noteq> ?fs"
    by metis
  show ?thesis
    using update_json_by_rev_guarded [of ?fs "''info.json''" "manifest_text ''P''" ?ev
        "manifest_doc ''P''" "''ffff''" "''P''" "''N''" False "[]" "[]" "manifest_doc ''P''"]
      update_json_by_rev_guarded [of ?fs "''info.json''" "manifest_text ''P''" ?ev
        "manifest_doc ''P''" "''abc123''" "''P''" "''N''" False "[]" "[]" "manifest_doc ''P''"]
      rd ld none some wr ch
    by simp
qed

subsection \<open>The placeholder counter\<close>

lemma non_overlapping_0: "non_overlapping s sub 0"
  by (simp add: non_overlapping_def)

lemma non_overlapping_Suc:
  "non_overlapping s sub (Suc k) \<longleftrightarrow> (\<exists>g s'. s = g @ sub @ s' \<and> non_overlapping s' sub k)"
proof
  assume "non_overlapping s sub (Suc k)"
  then obtain gaps rest where g: "length gaps = Suc k" "s = concat (map (\<lambda>g. g @ sub) gaps) @ rest"
    by (auto simp: non_overlapping_def)
  then obtain g gs where "gaps = g # gs" by (cases gaps) auto
  with g show "\<exists>g s'. s = g @ sub @ s' \<and> non_overlapping s' sub k"
    by (auto simp: non_overlapping_def)
next
  assume "\<exists>g s'. s = g @ sub @ s' \<and> non_overlapping s' sub k"
  then obtain g s' gaps rest where
    "s = g @ sub @ s'" "length gaps = k" "s' = concat (map (\<lambda>g. g @ sub) gaps) @ rest"
    by (auto simp: non_overlapping_def)
  then have "length (g # gaps) = Suc k \<and> s = concat (map (\<lambda>g. g @ sub) (g # gaps)) @ rest"
    by simp
  then show "non_overlapping s sub (Suc k)"
    unfolding non_overlapping_def by blast
qed

lemma non_overlapping_prepend: "non_overlapping s sub k \<Longrightarrow> non_overlapping (p @ s) sub k"
proof (cases k)
  case 0
  then show ?thesis by (simp add: non_overlapping_0)
next
  case (Suc k')
  assume "non_overlapping s sub k"
  then obtain g s' where "s = g @ sub @ s'" "non_overlapping s' sub k'"
    using Suc by (auto simp: non_overlapping_Suc)
  then have "p @ s = (p @ g) @ sub @ s' \<and> non_overlapping s' sub k'" by simp
  then show ?thesis unfolding Suc non_overlapping_Suc by blast
qed

lemma starts_with_split: "starts_with s sub \<Longrightarrow> s = sub @ drop (length sub) s"
  by (metis append_take_drop_id starts_with_def)

lemma count_from_reaches: "sub \<noteq> [] \<Longrightarrow> non_overlapping s sub (count_from s sub)"
proof (induction s sub rule: count_from.induct)
  case (1 s sub)
  show ?case
  proof (cases "s = []")
    case True
    then show ?thesis by (simp add: count_from.simps non_overlapping_0)
  next
    case False
    show ?thesis
    proof (cases "starts_with s sub")
      case True
      have "non_overlapping (drop (length sub) s) sub (count_from (drop (length sub) s) sub)"
        using 1 False True by simp
      then have "non_overlapping s sub (Suc (count_from (drop (length sub) s) sub))"
        unfolding non_overlapping_Suc using starts_with_split [OF True]
        by (metis append_Nil)
      then show ?thesis using 1(3) False True by (simp add: count_from.simps)
    next
      case nsw: False
      have "non_overlapping (tl s) sub (count_from (tl s) sub)"
        using 1 False nsw by simp
      then have "non_overlapping ([hd s] @ tl s) sub (count_from (tl s) sub)"
        by (rule non_overlapping_prepend)
      then show ?thesis using 1(3) False nsw by (simp add: count_from.simps)
    qed
  qed
qed

lemma count_from_bounds: "sub \<noteq> [] \<Longrightarrow> non_overlapping s sub k \<Longrightarrow> k \<le> count_from s sub"
proof (induction s sub arbitrary: k rule: count_from.induct)
  case (1 s sub)
  show ?case
  proof (cases k)
    case 0
    then show ?thesis by simp
  next
    case (Suc k')
    then obtain g s' where s: "s = g @ sub @ s'" and k': "non_overlapping s' sub k'"
      using 1(4) by (auto simp: non_overlapping_Suc)
    have ne: "s \<noteq> []" using s 1(3) by simp
    show ?thesis
    proof (cases "starts_with s sub")
      case True
      have "drop (length sub) s = take (length g) (drop (length sub) s) @ drop (length g) (drop (length sub) s)"
        by (rule append_take_drop_id [symmetric])
      moreover have "drop (length g) (drop (length sub) s) = s'"
        using s by (simp add: add.commute)
      ultimately have "non_overlapping (drop (length sub) s) sub k'"
        using non_overlapping_prepend [OF k'] by metis
      then have "k' \<le> count_from (drop (length sub) s) sub"
        using 1(1) [of k'] 1(3) ne True by simp
      then show ?thesis using Suc 1(3) ne True by (simp add: count_from.simps)
    next
      case False
      then have "g \<noteq> []" using s by (auto simp: starts_with_def)
      then have "tl s = tl g @ sub @ s'" using s by simp
      then have "non_overlapping (tl s) sub (Suc k')"
        unfolding non_overlapping_Suc using k' by blast
      then have "Suc k' \<le> count_from (tl s) sub"
        using 1(2) [of "Suc k'"] 1(3) ne False by simp
      then show ?thesis using Suc 1(3) ne False by (simp add: count_from.simps)
    qed
  qed
qed

text \<open>
  C8, as amended.  The placeholder counter returns zero when the file cannot be read.
  Otherwise it returns the number of occurrences of the token in the raw text that
  \<^verbatim>\<open>str.count\<close> counts, which do not overlap: the text holds that many occurrences
  which do not overlap, and never more.  For the empty token it is the number of
  positions.  It is not always the number of substring occurrences: a token that overlaps
  itself stands at more positions than are counted.
\<close>

theorem count_remaining_placeholders_counts:
  "(read_text fs filepath = Inl e \<longrightarrow> count_remaining_placeholders fs filepath p = 0)
   \<and> (read_text fs filepath = Inr content \<and> p \<noteq> [] \<longrightarrow>
        non_overlapping content p (count_remaining_placeholders fs filepath p)
        \<and> (\<forall>k. non_overlapping content p k \<longrightarrow> k \<le> count_remaining_placeholders fs filepath p))
   \<and> (read_text fs filepath = Inr content \<and> p = [] \<longrightarrow>
        count_remaining_placeholders fs filepath p = Suc (length content))"
  by (simp add: count_remaining_placeholders_def count_str_def count_from_reaches count_from_bounds)

theorem count_remaining_placeholders_counts_witness:
  "count_remaining_placeholders (example_fs (manifest_text PLACEHOLDER_HASH)) ''info.json'' PLACEHOLDER_HASH = 1
   \<and> non_overlapping (manifest_text PLACEHOLDER_HASH) PLACEHOLDER_HASH 1
   \<and> count_remaining_placeholders (\<lambda>p. Missing) ''info.json'' PLACEHOLDER_HASH = 0
   \<and> count_remaining_placeholders (example_fs ''aaa'') ''info.json'' [] = 4"
proof -
  let ?fs = "example_fs (manifest_text PLACEHOLDER_HASH)"
  have rd: "read_text ?fs ''info.json'' = Inr (manifest_text PLACEHOLDER_HASH)"
    by (simp add: read_text_def example_fs_def)
  have ne: "PLACEHOLDER_HASH \<noteq> []"
    by (simp add: PLACEHOLDER_HASH_def)
  have c: "count_remaining_placeholders ?fs ''info.json'' PLACEHOLDER_HASH = 1"
    by code_simp
  have no: "read_text (\<lambda>p. Missing) ''info.json'' = Inl (no_such_file ''info.json'')"
    by (simp add: read_text_def)
  have rd3: "read_text (example_fs ''aaa'') ''info.json'' = Inr ''aaa''"
    by (simp add: read_text_def example_fs_def)
  show ?thesis
    using count_remaining_placeholders_counts [of ?fs "''info.json''" "no_such_file ''info.json''"
        PLACEHOLDER_HASH "manifest_text PLACEHOLDER_HASH"]
      count_remaining_placeholders_counts [of "\<lambda>p. Missing" "''info.json''"
        "no_such_file ''info.json''" PLACEHOLDER_HASH "[]"]
      count_remaining_placeholders_counts [of "example_fs ''aaa''" "''info.json''"
        "[]" "[]" "''aaa''"]
      rd ne c no rd3
    by simp
qed

text \<open>
  The token \<open>aa\<close> stands at two positions of the text \<open>aaa\<close>; the counter returns one.
\<close>

theorem count_remaining_placeholders_overlap_counterexample:
  "count_remaining_placeholders (example_fs ''aaa'') ''info.json'' ''aa'' = 1
   \<and> occurrences ''aaa'' ''aa'' = 2
   \<and> count_remaining_placeholders (example_fs ''aaa'') ''info.json'' ''aa''
       \<noteq> occurrences ''aaa'' ''aa''"
proof -
  have 1: "count_remaining_placeholders (example_fs ''aaa'') ''info.json'' ''aa'' = 1"
    by code_simp
  have 2: "occurrences ''aaa'' ''aa'' = 2"
    by code_simp
  from 1 2 show ?thesis by simp
qed

subsection \<open>The description of an entry\<close>




subsection \<open>The patterns of the output parser\<close>

lemma strip_prefix_Some: "strip_prefix p s = Some a \<longleftrightarrow> s = p @ a"
proof
  assume "strip_prefix p s = Some a"
  then have "starts_with s p" and "a = drop (length p) s"
    by (auto simp: strip_prefix_def split: if_splits)
  then show "s = p @ a" using starts_with_split by simp
next
  assume "s = p @ a"
  then show "strip_prefix p s = Some a" by (simp add: strip_prefix_def starts_with_def)
qed

lemma strip_prefix_app: "strip_prefix p (p @ a) = Some a"
  by (simp add: strip_prefix_Some)

subsection \<open>Search\<close>

lemma re_search_None: "re_search m s = None \<longleftrightarrow> (\<forall>pre suf. s = pre @ suf \<longrightarrow> m suf = None)"
proof (induction s)
  case Nil
  then show ?case by simp
next
  case (Cons c s)
  show ?case
  proof
    assume a: "re_search m (c # s) = None"
    then have m0: "m (c # s) = None" and r: "re_search m s = None"
      by (auto split: option.splits)
    show "\<forall>pre suf. c # s = pre @ suf \<longrightarrow> m suf = None"
    proof (intro allI impI)
      fix pre suf assume e: "c # s = pre @ suf"
      show "m suf = None"
      proof (cases pre)
        case Nil
        then show ?thesis using e m0 by simp
      next
        case (Cons x pre')
        then have "s = pre' @ suf" using e by simp
        then show ?thesis using r Cons.IH by blast
      qed
    qed
  next
    assume a: "\<forall>pre suf. c # s = pre @ suf \<longrightarrow> m suf = None"
    have "c # s = [] @ (c # s)" by simp
    with a have 1: "m (c # s) = None" by blast
    have "m suf = None" if "s = pre @ suf" for pre suf
    proof -
      have "c # s = (c # pre) @ suf" using that by simp
      with a show ?thesis by blast
    qed
    then have "re_search m s = None" unfolding Cons.IH by blast
    with 1 show "re_search m (c # s) = None" by simp
  qed
qed

lemma re_search_Some: "re_search m s = Some g \<Longrightarrow> \<exists>pre suf. s = pre @ suf \<and> m suf = Some g"
proof (induction s)
  case Nil
  then show ?case by simp
next
  case (Cons c s)
  show ?case
  proof (cases "m (c # s)")
    case None
    then have "re_search m s = Some g" using Cons.prems by simp
    then obtain pre suf where "s = pre @ suf" "m suf = Some g" using Cons.IH by blast
    then have "c # s = (c # pre) @ suf \<and> m suf = Some g" by simp
    then show ?thesis by blast
  next
    case (Some g')
    then have "m (c # s) = Some g" using Cons.prems by simp
    then have "c # s = [] @ (c # s) \<and> m (c # s) = Some g" by simp
    then show ?thesis by blast
  qed
qed

lemma re_search_miss: "re_search m (pre @ suf) = None \<Longrightarrow> m suf = None"
  by (rule iffD1 [OF re_search_None, rule_format, OF _ refl])

lemma re_search_hit: "m suf \<noteq> None \<Longrightarrow> re_search m (pre @ suf) \<noteq> None"
proof
  assume a: "m suf \<noteq> None" and b: "re_search m (pre @ suf) = None"
  from a re_search_miss [OF b] show False by simp
qed


subsection \<open>Runs\<close>

lemma takeWhile_run:
  "\<forall>c\<in>set ws. P c \<Longrightarrow> lit \<noteq> [] \<Longrightarrow> \<not> P (hd lit) \<Longrightarrow> takeWhile P (ws @ lit @ r) = ws"
  by (cases lit) (simp_all add: takeWhile_append2)

lemma dropWhile_run:
  "\<forall>c\<in>set ws. P c \<Longrightarrow> lit \<noteq> [] \<Longrightarrow> \<not> P (hd lit) \<Longrightarrow> dropWhile P (ws @ lit @ r) = lit @ r"
  by (cases lit) (simp_all add: dropWhile_append2)

lemma dropWhile_stops: "dropWhile P xs = [] \<or> \<not> P (hd (dropWhile P xs))"
  by (induction xs) auto

lemma takeWhile_all:
  "\<forall>c\<in>set tok. P c \<Longrightarrow> post = [] \<or> \<not> P (hd post) \<Longrightarrow> takeWhile P (tok @ post) = tok"
  by (cases post) (simp_all add: takeWhile_append2)

lemma takeWhile_holds: "\<forall>c\<in>set (takeWhile P xs). P c"
  by (auto dest: set_takeWhileD)

lemma lit_run_litD:
  assumes "lit_run_lit l1 P l2 s = Some (r, t)"
  shows "s = l1 @ r @ l2 @ t \<and> r \<noteq> [] \<and> (\<forall>c\<in>set r. P c)"
proof -
  from assms obtain a where a: "s = l1 @ a" and r: "takeWhile P a \<noteq> []" "r = takeWhile P a"
    and d: "dropWhile P a = l2 @ t"
    by (auto simp: lit_run_lit_def strip_prefix_Some split: option.splits if_splits)
  have "a = takeWhile P a @ dropWhile P a" by simp
  then have "a = r @ l2 @ t" using r(2) d by simp
  then show ?thesis using a r takeWhile_holds [of P a] by simp
qed

lemma lit_run_litI:
  assumes "l2 \<noteq> []" "\<not> P (hd l2)" "r \<noteq> []" "\<forall>c\<in>set r. P c"
  shows "lit_run_lit l1 P l2 (l1 @ r @ l2 @ t) = Some (r, t)"
proof -
  have tw: "takeWhile P (r @ l2 @ t) = r" by (rule takeWhile_run [OF assms(4,1,2)])
  have dw: "dropWhile P (r @ l2 @ t) = l2 @ t" by (rule dropWhile_run [OF assms(4,1,2)])
  show ?thesis
    unfolding lit_run_lit_def strip_prefix_app option.case tw dw using assms(3) by simp
qed

lemma lit_run_tokenD:
  assumes "lit_run_token l1 P l2 Q s = Some g"
  shows "\<exists>ws tok post. s = l1 @ ws @ l2 @ tok @ post \<and> g = l2 @ tok
        \<and> ws \<noteq> [] \<and> (\<forall>c\<in>set ws. P c) \<and> tok \<noteq> [] \<and> (\<forall>c\<in>set tok. Q c)
        \<and> (post = [] \<or> \<not> Q (hd post))"
proof -
  from assms obtain ws t where l: "lit_run_lit l1 P l2 s = Some (ws, t)"
    and t: "takeWhile Q t \<noteq> []" and g: "g = l2 @ takeWhile Q t"
    by (auto simp: lit_run_token_def split: option.splits if_splits)
  define tok where "tok = takeWhile Q t"
  define post where "post = dropWhile Q t"
  have tp: "t = tok @ post" by (simp add: tok_def post_def)
  have 1: "s = l1 @ ws @ l2 @ tok @ post" using lit_run_litD [OF l] tp by simp
  have 2: "g = l2 @ tok" using g by (simp add: tok_def)
  have 3: "ws \<noteq> []" "\<forall>c\<in>set ws. P c" using lit_run_litD [OF l] by simp_all
  have 5: "tok \<noteq> []" using t by (simp add: tok_def)
  have 6: "\<forall>c\<in>set tok. Q c" unfolding tok_def by (rule takeWhile_holds)
  have 7: "post = [] \<or> \<not> Q (hd post)" unfolding post_def by (rule dropWhile_stops)
  from 1 2 3 5 6 7 show ?thesis by blast
qed

lemma lit_run_tokenI:
  assumes "l2 \<noteq> []" "\<not> P (hd l2)" "ws \<noteq> []" "\<forall>c\<in>set ws. P c" "tok \<noteq> []" "\<forall>c\<in>set tok. Q c"
  shows "lit_run_token l1 P l2 Q (l1 @ ws @ l2 @ tok @ post) \<noteq> None"
proof -
  have "takeWhile Q (tok @ post) = tok @ takeWhile Q post"
    using assms(6) by (simp add: takeWhile_append2)
  then have "takeWhile Q (tok @ post) \<noteq> []" using assms(5) by simp
  then show ?thesis
    using lit_run_litI [OF assms(1-4), of l1 "tok @ post"]
    by (simp add: lit_run_token_def)
qed

lemma token_search_iff:
  assumes "l2 \<noteq> []" "\<not> P (hd l2)"
  shows "(\<exists>pre ws tok post. out = pre @ l1 @ ws @ l2 @ tok @ post
            \<and> ws \<noteq> [] \<and> (\<forall>c\<in>set ws. P c) \<and> tok \<noteq> [] \<and> (\<forall>c\<in>set tok. Q c))
         \<longleftrightarrow> re_search (lit_run_token l1 P l2 Q) out \<noteq> None"
proof
  assume "\<exists>pre ws tok post. out = pre @ l1 @ ws @ l2 @ tok @ post
            \<and> ws \<noteq> [] \<and> (\<forall>c\<in>set ws. P c) \<and> tok \<noteq> [] \<and> (\<forall>c\<in>set tok. Q c)"
  then obtain pre ws tok post where o: "out = pre @ l1 @ ws @ l2 @ tok @ post"
    and c: "ws \<noteq> []" "\<forall>c\<in>set ws. P c" "tok \<noteq> []" "\<forall>c\<in>set tok. Q c"
    by blast
  show "re_search (lit_run_token l1 P l2 Q) out \<noteq> None"
    unfolding o by (rule re_search_hit) (rule lit_run_tokenI [OF assms c])
next
  assume "re_search (lit_run_token l1 P l2 Q) out \<noteq> None"
  then obtain g where g: "re_search (lit_run_token l1 P l2 Q) out = Some g" by blast
  from re_search_Some [OF g]
  obtain pre suf where o: "out = pre @ suf" and m: "lit_run_token l1 P l2 Q suf = Some g"
    by blast
  from lit_run_tokenD [OF m] obtain ws tok post where "suf = l1 @ ws @ l2 @ tok @ post"
    "ws \<noteq> []" "\<forall>c\<in>set ws. P c" "tok \<noteq> []" "\<forall>c\<in>set tok. Q c"
    by blast
  then show "\<exists>pre ws tok post. out = pre @ l1 @ ws @ l2 @ tok @ post
            \<and> ws \<noteq> [] \<and> (\<forall>c\<in>set ws. P c) \<and> tok \<noteq> [] \<and> (\<forall>c\<in>set tok. Q c)"
    using o by blast
qed


subsection \<open>Greedy runs\<close>







subsection \<open>The three patterns\<close>

lemma not_space_s: "\<not> is_space CHR ''s''"
  by (simp add: is_space_def)


lemma has_computed_hash_iff: "has_computed_hash output \<longleftrightarrow> re_search match_hash output \<noteq> None"
proof -
  have e: "match_hash = lit_run_token ''got:'' is_space ''sha256-'' hash_char"
    by (rule ext) (rule match_hash_def)
  show ?thesis
    unfolding has_computed_hash_def e
    by (rule token_search_iff) (simp_all add: not_space_s)
qed




subsection \<open>The output parser\<close>

text \<open>
  C6.  For every text that holds no match of the pattern of the computed hash, the output
  parser returns no revision, no hash and no URL, whatever else the text holds.
\<close>

theorem extract_without_computed_hash:
  "\<not> has_computed_hash output \<Longrightarrow> extract_hash_mismatch_info output = (None, None, None)"
  by (simp add: has_computed_hash_iff extract_hash_mismatch_info_def)

theorem extract_without_computed_hash_witness:
  "extract_hash_mismatch_info unrelated_failure = (None, None, None)
   \<and> re_search match_rev unrelated_failure = Some ''abc123''"
proof -
  have "re_search match_hash unrelated_failure = None" by code_simp
  then have h: "\<not> has_computed_hash unrelated_failure" by (simp add: has_computed_hash_iff)
  have r: "re_search match_rev unrelated_failure = Some ''abc123''" by code_simp
  from extract_without_computed_hash [OF h] r show ?thesis by simp
qed



subsection \<open>The loop\<close>

lemma fix_entry_builds: "builds (flow_state (fix_entry ev a st rv h)) = builds st"
  by (simp add: fix_entry_def Let_def split: prod.splits)

lemma iteration_builds: "builds (flow_state (iteration ev a st)) = Suc (builds st)"
  by (simp add: iteration_def Let_def fix_entry_builds split: prod.splits)

lemma for_loop_builds:
  "for_loop ev a n st = (t, st') \<Longrightarrow>
     builds st \<le> builds st' \<and> builds st' \<le> builds st + n
     \<and> (t = ExhaustedIterations \<longrightarrow> builds st' = builds st + n)
     \<and> (0 < n \<longrightarrow> builds st < builds st')"
proof (induction n arbitrary: st)
  case 0
  then show ?case by simp
next
  case (Suc n)
  show ?case
  proof (cases "iteration ev a st")
    case (Continue st1)
    then have b: "builds st1 = Suc (builds st)" using iteration_builds [of ev a st] by simp
    from Continue Suc.prems have "for_loop ev a n st1 = (t, st')" by simp
    from Suc.IH [OF this] b show ?thesis by auto
  next
    case (Break st1)
    then have "builds st1 = Suc (builds st)" using iteration_builds [of ev a st] by simp
    with Break Suc.prems show ?thesis by auto
  next
    case (Exit c st1)
    then have "builds st1 = Suc (builds st)" using iteration_builds [of ev a st] by simp
    with Exit Suc.prems show ?thesis by auto
  qed
qed

lemma fix_entry_patched_once:
  "patched_once st \<Longrightarrow> patched_once (flow_state (fix_entry ev a st rv h))"
  by (auto simp: fix_entry_def Let_def patched_once_def split: prod.splits)

lemma patched_once_builds: "patched_once (st\<lparr>builds := n\<rparr>) = patched_once st"
  by (simp add: patched_once_def)

lemma iteration_patched_once:
  "patched_once st \<Longrightarrow> patched_once (flow_state (iteration ev a st))"
  by (simp add: iteration_def Let_def fix_entry_patched_once patched_once_builds split: prod.splits)

lemma for_loop_patched_once:
  "patched_once st \<Longrightarrow> patched_once (snd (for_loop ev a n st))"
proof (induction n arbitrary: st)
  case 0
  then show ?case by simp
next
  case (Suc n)
  from iteration_patched_once [OF Suc.prems, of ev a]
  show ?case by (cases "iteration ev a st") (simp_all add: Suc.IH)
qed

lemma initial_patched_once: "patched_once (initial_state fs)"
  by (simp add: patched_once_def initial_state_def)

lemma run_loop_final:
  "final (run_loop ev a fs) = initial_state fs
   \<or> (0 < count_remaining_placeholders fs (json_file a) (placeholder_hash a)
      \<and> final (run_loop ev a fs) = snd (for_loop ev a (nat (max_iterations a)) (initial_state fs))
      \<and> ended (run_loop ev a fs) = fst (for_loop ev a (nat (max_iterations a)) (initial_state fs)))"
  by (simp add: run_loop_def exit_early_def split: prod.splits terminal.splits)

lemma main_cases:
  "main ev a fs = run_loop ev a fs
   \<or> (final (main ev a fs) = initial_state fs \<and> summary (main ev a fs) = None
      \<and> ended (main ev a fs) \<in> {ManifestNotFound, UnexpectedError, ManifestInvalid, UserAborted})"
  by (simp add: main_def exit_early_def split: sum.splits option.splits)

lemma main_patched_once: "patched_once (final (main ev a fs))"
proof -
  have "patched_once (final (run_loop ev a fs))"
    using run_loop_final [of ev a fs] initial_patched_once [of fs]
      for_loop_patched_once [OF initial_patched_once, of ev a "nat (max_iterations a)" fs]
    by auto
  then show ?thesis using main_cases [of ev a fs] initial_patched_once [of fs] by auto
qed

lemma main_exhausted_builds:
  assumes "ended (main ev a fs) = ExhaustedIterations"
  shows "builds (final (main ev a fs)) = nat (max_iterations a)"
proof -
  have m: "main ev a fs = run_loop ev a fs" using main_cases [of ev a fs] assms by auto
  obtain t st where l: "for_loop ev a (nat (max_iterations a)) (initial_state fs) = (t, st)"
    by (cases "for_loop ev a (nat (max_iterations a)) (initial_state fs)")
  have "ended (run_loop ev a fs) = ExhaustedIterations" using assms m by simp
  then have "t = ExhaustedIterations \<and> final (run_loop ev a fs) = st"
    using l by (auto simp: run_loop_def exit_early_def split: if_splits terminal.splits)
  with for_loop_builds [OF l] m show ?thesis by (simp add: initial_state_def)
qed



subsection \<open>The summary\<close>






subsection \<open>Revisions already processed\<close>

lemma skip_processed:
  assumes "rv \<in> processed_revs st" "rv \<noteq> []"
    and "returncode (run_build_command ev (build_command a) (builds st) (storage st)) \<noteq> 0"
    and "fst (extract_hash_mismatch_info (stderr (run_build_command ev (build_command a) (builds st) (storage st)))) = Some rv"
    and "truthy_str (fst (snd (extract_hash_mismatch_info (stderr (run_build_command ev (build_command a) (builds st) (storage st))))))"
  shows "iteration ev a st = Continue (st\<lparr>builds := Suc (builds st)\<rparr>)"
proof -
  obtain r h u where e: "extract_hash_mismatch_info (stderr (run_build_command ev (build_command a) (builds st) (storage st))) = (r, h, u)"
    by (cases "extract_hash_mismatch_info (stderr (run_build_command ev (build_command a) (builds st) (storage st)))")
  with assms(4,5) have "r = Some rv" "truthy_str h" by simp_all
  with e assms(1,2,3) show ?thesis
    by (simp add: iteration_def Let_def truthy_str_def fix_entry_def)
qed

lemma skip_all:
  assumes "rv \<in> processed_revs st" "rv \<noteq> []"
    and "\<forall>k fs'. returncode (run_build_command ev (build_command a) k fs') \<noteq> 0
          \<and> fst (extract_hash_mismatch_info (stderr (run_build_command ev (build_command a) k fs'))) = Some rv
          \<and> truthy_str (fst (snd (extract_hash_mismatch_info (stderr (run_build_command ev (build_command a) k fs')))))"
  shows "for_loop ev a n st = (ExhaustedIterations, st\<lparr>builds := builds st + n\<rparr>)"
  using assms(1)
proof (induction n arbitrary: st)
  case 0
  then show ?case by simp
next
  case (Suc n)
  have i: "iteration ev a st = Continue (st\<lparr>builds := Suc (builds st)\<rparr>)"
    by (rule skip_processed [OF Suc.prems assms(2)]) (use assms(3) in simp_all)
  have "rv \<in> processed_revs (st\<lparr>builds := Suc (builds st)\<rparr>)" using Suc.prems by simp
  from Suc.IH [OF this] i show ?case by simp
qed

text \<open>
  C2.  In one run no revision is in the list of replacements twice.  When the diagnostic
  of a failed build yields a revision that is in the set of processed revisions, the pass
  does not patch and continues.  When every build fails with the diagnostic of such a
  revision, the loop leaves the storage and the replacements as they are and ends in
  \<open>ExhaustedIterations\<close> after one build for each iteration left; and a run that ends
  in \<open>ExhaustedIterations\<close> has made as many builds as the configured maximum of
  iterations.
\<close>

theorem revision_patched_at_most_once:
  "distinct (map fst (replacements (final (main ev a fs))))
   \<and> (rv \<in> processed_revs st \<and> rv \<noteq> []
        \<and> returncode (run_build_command ev (build_command a) (builds st) (storage st)) \<noteq> 0
        \<and> fst (extract_hash_mismatch_info (stderr (run_build_command ev (build_command a) (builds st) (storage st)))) = Some rv
        \<and> truthy_str (fst (snd (extract_hash_mismatch_info (stderr (run_build_command ev (build_command a) (builds st) (storage st))))))
      \<longrightarrow> iteration ev a st = Continue (st\<lparr>builds := Suc (builds st)\<rparr>))
   \<and> (rv \<in> processed_revs st \<and> rv \<noteq> []
        \<and> (\<forall>k fs'. returncode (run_build_command ev (build_command a) k fs') \<noteq> 0
          \<and> fst (extract_hash_mismatch_info (stderr (run_build_command ev (build_command a) k fs'))) = Some rv
          \<and> truthy_str (fst (snd (extract_hash_mismatch_info (stderr (run_build_command ev (build_command a) k fs'))))))
      \<longrightarrow> for_loop ev a n st = (ExhaustedIterations, st\<lparr>builds := builds st + n\<rparr>))
   \<and> (ended (main ev a fs) = ExhaustedIterations
      \<longrightarrow> builds (final (main ev a fs)) = nat (max_iterations a))"
proof -
  have 1: "distinct (map fst (replacements (final (main ev a fs))))"
    using main_patched_once [of ev a fs] by (simp add: patched_once_def)
  from 1 skip_processed [of rv st ev a] skip_all [of rv st ev a n] main_exhausted_builds [of ev a fs]
  show ?thesis by blast
qed

theorem revision_patched_at_most_once_witness:
  "ended (main (example_env [PLACEHOLDER_HASH, ''sha256-NEWHASH''] (build_fails mismatch_abc123))
       (example_args False 3) (example_fs (manifest_text PLACEHOLDER_HASH))) = ExhaustedIterations
   \<and> builds (final (main (example_env [PLACEHOLDER_HASH, ''sha256-NEWHASH''] (build_fails mismatch_abc123))
       (example_args False 3) (example_fs (manifest_text PLACEHOLDER_HASH)))) = 3
   \<and> replacements (final (main (example_env [PLACEHOLDER_HASH, ''sha256-NEWHASH''] (build_fails mismatch_abc123))
       (example_args False 3) (example_fs (manifest_text PLACEHOLDER_HASH))))
     = [(''abc123'', ''sha256-NEWHASH'', ''org/repo'')]
   \<and> for_loop (example_env [PLACEHOLDER_HASH, ''sha256-NEWHASH''] (build_fails mismatch_abc123))
       (example_args False 3) 2
       ((initial_state (example_fs (manifest_text ''sha256-NEWHASH'')))\<lparr>processed_revs := {''abc123''}\<rparr>)
     = (ExhaustedIterations,
        (initial_state (example_fs (manifest_text ''sha256-NEWHASH'')))\<lparr>processed_revs := {''abc123''}, builds := 2\<rparr>)"
proof -
  let ?ev = "example_env [PLACEHOLDER_HASH, ''sha256-NEWHASH''] (build_fails mismatch_abc123)"
  let ?a = "example_args False 3"
  let ?fs = "example_fs (manifest_text PLACEHOLDER_HASH)"
  let ?st = "(initial_state (example_fs (manifest_text ''sha256-NEWHASH'')))\<lparr>processed_revs := {''abc123''}\<rparr>"
  have e: "ended (main ?ev ?a ?fs) = ExhaustedIterations" by code_simp
  have r: "replacements (final (main ?ev ?a ?fs)) = [(''abc123'', ''sha256-NEWHASH'', ''org/repo'')]"
    by code_simp
  have x: "extract_hash_mismatch_info mismatch_abc123 = (Some ''abc123'', Some ''sha256-NEWHASH'', None)"
    by code_simp
  have p: "''abc123'' \<in> processed_revs ?st" by simp
  have b: "\<forall>k fs'. returncode (run_build_command ?ev (build_command ?a) k fs') \<noteq> 0
          \<and> fst (extract_hash_mismatch_info (stderr (run_build_command ?ev (build_command ?a) k fs'))) = Some ''abc123''
          \<and> truthy_str (fst (snd (extract_hash_mismatch_info (stderr (run_build_command ?ev (build_command ?a) k fs')))))"
    by (simp add: example_env_def build_fails_def x truthy_str_def)
  note T = revision_patched_at_most_once [of ?ev ?a ?fs "''abc123''" ?st 2]
  from conjunct2 [OF conjunct2 [OF conjunct2 [OF T]]] e
  have "builds (final (main ?ev ?a ?fs)) = nat (max_iterations ?a)" by blast
  then have c2: "builds (final (main ?ev ?a ?fs)) = 3" by (simp add: example_args_def)
  have c4: "for_loop ?ev ?a 2 ?st = (ExhaustedIterations, ?st\<lparr>builds := builds ?st + 2\<rparr>)"
    using conjunct1 [OF conjunct2 [OF conjunct2 [OF T]]] p b by blast
  have "?st\<lparr>builds := builds ?st + 2\<rparr>
      = (initial_state (example_fs (manifest_text ''sha256-NEWHASH'')))\<lparr>processed_revs := {''abc123''}, builds := 2\<rparr>"
    by (simp add: initial_state_def)
  with c4 have c4': "for_loop ?ev ?a 2 ?st = (ExhaustedIterations,
      (initial_state (example_fs (manifest_text ''sha256-NEWHASH'')))\<lparr>processed_revs := {''abc123''}, builds := 2\<rparr>)"
    by simp
  show ?thesis by (intro conjI e c2 r c4')
qed

subsection \<open>The last placeholder\<close>




end
